theory Spec2Isabelle
  imports Main
begin

section \<open>Shared vocabulary\<close>

text \<open>
  Object identities. Every Hierarchy component, every Node and every other component is a
  JavaScript object compared by reference; the model names them by natural numbers.
\<close>

type_synonym hid = nat
type_synonym nid = nat

text \<open>
  The source throws plain \<open>Error\<close> objects that differ in their message only. The
  constructors classify them the way the specification does and carry the message.
\<close>

datatype error =
    StructuralViolation string
  | DuplicateSingleton string
  | LookupMiss string

section \<open>Hierarchy (src/source/Hierarchy.ts)\<close>

subsection \<open>State\<close>

text \<open>The payload of \<open>IHierarchyEvent\<close>; its \<open>type\<close> tag is always "hierarchy".\<close>

record hierarchy_event =
  ev_add :: bool
  ev_remove :: bool
  ev_parent :: hid
  ev_child :: hid

text \<open>
  \<open>component.emit(event)\<close> and \<open>component.node.emit(event)\<close> hand the event to the
  publisher library; the model records each call, in order, in a trace.
\<close>

datatype emission =
    EmitAtComponent hid hierarchy_event
  | EmitAtNode nid hierarchy_event

text \<open>
  A component as the registries see it: its identity, its own type name, the type names
  of its base classes, and whether it declares itself a system singleton.
\<close>

record component =
  ident :: nat
  typeName :: string
  baseTypes :: "string list"
  isSystemSingleton :: bool

text \<open>
  Modelled from the spec: the object registry (\<open>ObjectRegistry\<close> of the core library,
  which is not among the sources): a mapping from a type identifier to the ordered
  sequence of live instances filed under it.
\<close>

type_synonym registry = "string \<Rightarrow> component list"

definition registry_empty :: registry where
  "registry_empty = (\<lambda>t. [])"

text \<open>
  Modelled from the spec: \<open>ObjectRegistry.add\<close>, which files the object under its own
  type and every base type, at the end of each bucket and never twice in one bucket.
\<close>

definition registry_file :: "component \<Rightarrow> string \<Rightarrow> registry \<Rightarrow> registry" where
  "registry_file obj t reg = (if obj \<in> set (reg t) then reg else reg(t := reg t @ [obj]))"

definition registry_add :: "registry \<Rightarrow> component \<Rightarrow> registry" where
  "registry_add reg obj = fold (registry_file obj) (typeName obj # baseTypes obj) reg"

text \<open>
  Modelled from the spec: \<open>ObjectRegistry.has\<close>, whether any instance is filed under the
  type, and \<open>ObjectRegistry.getArray\<close>, all of them in insertion order.
\<close>

definition registry_has :: "registry \<Rightarrow> string \<Rightarrow> bool" where
  "registry_has reg t = (reg t \<noteq> [])"

definition registry_getArray :: "registry \<Rightarrow> string \<Rightarrow> component list" where
  "registry_getArray reg t = reg t"

text \<open>
  Modelled from the spec: \<open>ObjectRegistry.get\<close>, the first instance of the type; on a
  miss an empty result when \<open>noThrow\<close> is requested and a NotFound error otherwise.
\<close>

definition registry_get :: "registry \<Rightarrow> string \<Rightarrow> bool \<Rightarrow> error + component option" where
  "registry_get reg t nothrow =
     (case reg t of
        [] \<Rightarrow> if nothrow then Inr None else Inl (LookupMiss t)
      | obj # rest \<Rightarrow> Inr (Some obj))"

text \<open>
  The store of all Hierarchy objects: the fields \<open>_parent\<close> and \<open>_children\<close> of each,
  the node each component belongs to (\<open>component.node\<close>), the component registry of each
  node (\<open>node.components\<close>) and the trace of emitted events.
\<close>

record hstate =
  parent :: "hid \<Rightarrow> hid option"
  children :: "hid \<Rightarrow> hid list"
  node :: "hid \<Rightarrow> nid"
  node_components :: "nid \<Rightarrow> registry"
  emitted :: "emission list"

subsection \<open>Array helpers\<close>

text \<open>\<open>Array.prototype.indexOf\<close>: the first position of the element, or -1.\<close>

fun indexOf :: "'a list \<Rightarrow> 'a \<Rightarrow> int" where
  "indexOf [] x = -1"
| "indexOf (y # ys) x =
     (if y = x then 0 else (let i = indexOf ys x in if i < 0 then -1 else i + 1))"

text \<open>
  \<open>Array.prototype.splice(index, 1)\<close>: a negative start counts from the end (so -1 is the
  last element), a start beyond the end removes nothing.
\<close>

definition splice1 :: "int \<Rightarrow> 'a list \<Rightarrow> 'a list" where
  "splice1 index xs =
     (let len = int (length xs);
          start = (if index < 0 then max (len + index) 0 else min index len);
          deleteCount = min 1 (len - start)
      in take (nat start) xs @ drop (nat start + nat deleteCount) xs)"

subsection \<open>The upward multicast\<close>

text \<open>
  The loop \<open>while (component) { component.emit(event); component.node.emit(event);
  component = component._parent; }\<close> shared by \<open>addChild\<close> and \<open>removeChild\<close>. It
  follows parent references for as long as there is one, so it is a partial function:
  \<open>None\<close> is the loop that never ends.
\<close>

partial_function (option) emit_walk ::
  "hierarchy_event \<Rightarrow> hid option \<Rightarrow> hstate \<Rightarrow> hstate option" where
  "emit_walk event component s =
     (case component of
        None \<Rightarrow> Some s
      | Some c \<Rightarrow>
          emit_walk event (parent s c)
            (s\<lparr>emitted := emitted s @ [EmitAtComponent c event, EmitAtNode (node s c) event]\<rparr>))"

subsection \<open>addChild and removeChild\<close>

text \<open>
  A call yields \<open>None\<close> when it never returns, and otherwise the outcome (the thrown
  error, or a normal return) together with the store as the call leaves it.
\<close>

definition addChild :: "hid \<Rightarrow> hid \<Rightarrow> hstate \<Rightarrow> ((error + unit) \<times> hstate) option" where
  "addChild this component s =
     (if parent s component \<noteq> None
      then Some (Inl (StructuralViolation ''component should not have a parent''), s)
      else
        let s1 = s\<lparr>parent := (parent s)(component := Some this)\<rparr>;
            s2 = s1\<lparr>children := (children s1)(this := children s1 this @ [component])\<rparr>;
            event = \<lparr>ev_add = True, ev_remove = False, ev_parent = this, ev_child = component\<rparr>
        in map_option (\<lambda>s'. (Inr (), s')) (emit_walk event (Some component) s2))"

definition removeChild :: "hid \<Rightarrow> hid \<Rightarrow> hstate \<Rightarrow> ((error + unit) \<times> hstate) option" where
  "removeChild this component s =
     (if parent s component \<noteq> Some this
      then Some (Inl (StructuralViolation ''component not a child of this''), s)
      else
        let index = indexOf (children s this) component;
            s1 = s\<lparr>children := (children s)(this := splice1 index (children s this))\<rparr>;
            s2 = s1\<lparr>parent := (parent s1)(component := None)\<rparr>;
            event = \<lparr>ev_add = False, ev_remove = True, ev_parent = this, ev_child = component\<rparr>
        in map_option (\<lambda>s'. (Inr (), s')) (emit_walk event (Some component) s2))"

subsection \<open>getParent\<close>

text \<open>
  \<open>parent.node.components.get(componentOrType)\<close> is a call into the registry library.
  Whether a miss comes back as an empty result or as a thrown error is the library's
  business, so the lookup is a parameter of the model: \<open>Inl\<close> is a throw, \<open>Inr None\<close>
  a falsy result. The type argument is the type identifier the registry resolves it to.
\<close>

type_synonym lookup = "registry \<Rightarrow> string \<Rightarrow> error + component option"

text \<open>
  The loop \<open>while (parent) { component = parent.node.components.get(componentOrType);
  if (component) { return component; } }\<close> followed by \<open>return null\<close>. The body does not
  assign \<open>parent\<close>.
\<close>

partial_function (option) getParent_loop ::
  "lookup \<Rightarrow> string \<Rightarrow> hid option \<Rightarrow> hstate \<Rightarrow> (error + component option) option" where
  "getParent_loop get componentOrType parent_var s =
     (case parent_var of
        None \<Rightarrow> Some (Inr None)
      | Some p \<Rightarrow>
          (case get (node_components s (node s p)) componentOrType of
             Inl e \<Rightarrow> Some (Inl e)
           | Inr (Some c) \<Rightarrow> Some (Inr (Some c))
           | Inr None \<Rightarrow> getParent_loop get componentOrType parent_var s))"

definition getParent ::
  "lookup \<Rightarrow> string \<Rightarrow> bool \<Rightarrow> hid \<Rightarrow> hstate \<Rightarrow> (error + component option) option" where
  "getParent get componentOrType recursive this s =
     (case parent s this of
        None \<Rightarrow> Some (Inr None)
      | Some p \<Rightarrow>
          (case get (node_components s (node s p)) componentOrType of
             Inl e \<Rightarrow> Some (Inl e)
           | Inr (Some c) \<Rightarrow> Some (Inr (Some c))
           | Inr None \<Rightarrow>
               if recursive then getParent_loop get componentOrType (parent s p) s
               else Some (Inr None)))"

subsection \<open>Ancestor chains and example stores\<close>

text \<open>
  \<open>upchain par c hs\<close>: following the parent references \<open>par\<close> from \<open>c\<close> visits exactly
  the hierarchies \<open>hs\<close>, in that order, and then reaches the top.
\<close>

inductive upchain :: "(hid \<Rightarrow> hid option) \<Rightarrow> hid option \<Rightarrow> hid list \<Rightarrow> bool" where
  top: "upchain par None []"
| up: "upchain par (par h) hs \<Longrightarrow> upchain par (Some h) (h # hs)"

text \<open>The events one multicast emits along a chain.\<close>

definition multicast :: "(hid \<Rightarrow> nid) \<Rightarrow> hierarchy_event \<Rightarrow> hid list \<Rightarrow> emission list" where
  "multicast nd event hs = concat (map (\<lambda>h. [EmitAtComponent h event, EmitAtNode (nd h) event]) hs)"

text \<open>
  Freshly constructed hierarchies (\<open>_parent = null\<close>, \<open>_children = []\<close>); hierarchy \<open>h\<close>
  belongs to node \<open>h + 10\<close>, whose only component is that hierarchy.
\<close>

definition hierarchy_component :: "hid \<Rightarrow> component" where
  "hierarchy_component h =
     \<lparr>ident = h, typeName = ''Hierarchy'', baseTypes = [''Component''], isSystemSingleton = False\<rparr>"

definition fresh :: hstate where
  "fresh =
     \<lparr>parent = (\<lambda>h. None), children = (\<lambda>h. []), node = (\<lambda>h. h + 10),
      node_components = (\<lambda>n. registry_add registry_empty (hierarchy_component (n - 10))),
      emitted = []\<rparr>"

text \<open>The chain root (0) \<rightarrow> mid (1), with the leaf (2) still detached.\<close>

definition chain2 :: hstate where
  "chain2 = fresh\<lparr>parent := (\<lambda>h. None)(1 := Some 0), children := (\<lambda>h. [])(0 := [1])\<rparr>"

text \<open>The chain root (0) \<rightarrow> mid (1) \<rightarrow> leaf (2).\<close>

definition chain3 :: hstate where
  "chain3 = fresh\<lparr>parent := (\<lambda>h. None)(1 := Some 0, 2 := Some 1),
                  children := (\<lambda>h. [])(0 := [1], 1 := [2])\<rparr>"

text \<open>
  The children lists and the parent references agree: a hierarchy is listed, once, among
  the children of exactly the hierarchy its parent reference names.
\<close>

definition consistent :: "hstate \<Rightarrow> bool" where
  "consistent s \<longleftrightarrow>
     (\<forall>h. distinct (children s h)) \<and>
     (\<forall>h c. c \<in> set (children s h) \<longleftrightarrow> parent s c = Some h)"

section \<open>System (src/source/System.ts)\<close>

text \<open>
  The global registries of the System. \<open>_addComponent\<close> reads and writes
  \<open>this.components\<close> only.
\<close>

record system =
  components :: registry
  nodes :: "string \<Rightarrow> nid list"

definition singleton_message :: "component \<Rightarrow> string" where
  "singleton_message component =
     ''only one component of type '' @ [CHR 0x27] @ typeName component @ [CHR 0x27]
       @ '' allowed per system''"

text \<open>
  \<open>System._addComponent\<close>. \<open>this.components.has(component)\<close> asks the registry for
  the bucket of the component's own type.
\<close>

definition addComponent :: "component \<Rightarrow> system \<Rightarrow> (error + unit) \<times> system" where
  "addComponent component s =
     (if isSystemSingleton component \<and> registry_has (components s) (typeName component)
      then (Inl (DuplicateSingleton (singleton_message component)), s)
      else (Inr (), s\<lparr>components := registry_add (components s) component\<rparr>))"

text \<open>
  A System as its constructor leaves the registries, and instances of a component type
  that declares itself a system singleton.
\<close>

definition system_new :: system where
  "system_new = \<lparr>components = registry_empty, nodes = (\<lambda>t. [])\<rparr>"

definition renderer :: "nat \<Rightarrow> component" where
  "renderer i =
     \<lparr>ident = i, typeName = ''CRenderer'', baseTypes = [''Component''], isSystemSingleton = True\<rparr>"

section \<open>CGraph (second unit of src/source/System.ts)\<close>

text \<open>A JSON-compatible value, with JavaScript's \<open>undefined\<close> beside it.\<close>

datatype json =
    JUndefined
  | JNull
  | JBool bool
  | JNumber int
  | JString string
  | JArray "json list"
  | JObject "(string \<times> json) list"

text \<open>The assignment \<open>record.key = value\<close> on an object literal.\<close>

fun set_property :: "(string \<times> json) list \<Rightarrow> string \<Rightarrow> json \<Rightarrow> (string \<times> json) list" where
  "set_property [] k v = [(k, v)]"
| "set_property ((k', v') # props) k v =
     (if k' = k then (k, v) # props else (k', v') # set_property props k v)"

text \<open>Reading \<open>value.key\<close>: only an object has fields.\<close>

fun get_property :: "json \<Rightarrow> string \<Rightarrow> json option" where
  "get_property (JObject props) k = map_of props k"
| "get_property other k = None"

text \<open>
  The hosting component: the inherited \<open>changed\<close> flag, the nested \<open>graph\<close> it owns
  and the designated \<open>_root\<close>. The nested Graph's type is left open.
\<close>

record 'g cgraph =
  changed :: bool
  graph_c :: 'g
  root :: "hid option"

text \<open>
  \<open>CGraph.tick\<close>. \<open>Graph.tick\<close> is not part of the sources and is a parameter: the
  pass over the nested graph, returning its result and the graph as the pass leaves it.
\<close>

definition CGraph_tick ::
  "('ctx \<Rightarrow> 'g \<Rightarrow> bool \<times> 'g) \<Rightarrow> 'ctx \<Rightarrow> 'g cgraph \<Rightarrow> bool \<times> 'g cgraph" where
  "CGraph_tick Graph_tick context this =
     (let this1 = this\<lparr>changed := True\<rparr>;
          (result, g) = Graph_tick context (graph_c this1)
      in (result, this1\<lparr>graph_c := g\<rparr>))"

text \<open>
  \<open>CGraph.deflate\<close>. \<open>Component.deflate\<close> (the \<open>super\<close> call, yielding the record of
  the component's own state) and \<open>Graph.deflate\<close> are not part of the sources and are
  parameters. The body builds the record and ends without a \<open>return\<close> statement, so the
  call evaluates to \<open>undefined\<close>.
\<close>

definition CGraph_deflate ::
  "('g cgraph \<Rightarrow> (string \<times> json) list) \<Rightarrow> ('g \<Rightarrow> json) \<Rightarrow> 'g cgraph \<Rightarrow> json" where
  "CGraph_deflate Component_deflate Graph_deflate this =
     (let json = Component_deflate this;
          json = set_property json ''graph'' (Graph_deflate (graph_c this))
      in JUndefined)"

section \<open>SelectionController (src/unnamed/part_000)\<close>

type_synonym cid = nat

text \<open>
  Event payloads (\<open>ISelectNodeEvent\<close>, \<open>ISelectComponentEvent\<close>, and the update event
  that carries none) and the two ways the controller publishes them: \<open>this.emit\<close> under
  an event name, and \<open>this.system.emitComponentEvent\<close> for a component under an event
  name.
\<close>

datatype payload =
    ISelectNodeEvent nid bool
  | ISelectComponentEvent cid bool
  | NoPayload

datatype sel_emission =
    Emit string payload
  | SystemEmitComponentEvent cid string payload

definition selectNodeEvent :: string where
  "selectNodeEvent = ''node''"

definition selectComponentEvent :: string where
  "selectComponentEvent = ''component''"

definition updateEvent :: string where
  "updateEvent = ''update''"

text \<open>
  The two JavaScript \<open>Set\<close>s are lists without duplicates in insertion order, which is
  the order \<open>for ... of\<close> visits them in.
\<close>

record selection_controller =
  multiSelect :: bool
  exclusiveSelect :: bool
  selectedNodes :: "nid list"
  selectedComponents :: "cid list"
  sel_emitted :: "sel_emission list"

definition SelectionController_new :: selection_controller where
  "SelectionController_new =
     \<lparr>multiSelect = False, exclusiveSelect = True, selectedNodes = [],
      selectedComponents = [], sel_emitted = []\<rparr>"

definition set_add :: "'a \<Rightarrow> 'a list \<Rightarrow> 'a list" where
  "set_add x xs = (if x \<in> set xs then xs else xs @ [x])"

definition set_delete :: "'a \<Rightarrow> 'a list \<Rightarrow> 'a list" where
  "set_delete x xs = removeAll x xs"

definition emitSelectNodeEvent :: "nid \<Rightarrow> bool \<Rightarrow> selection_controller \<Rightarrow> selection_controller" where
  "emitSelectNodeEvent n selected s =
     s\<lparr>sel_emitted := sel_emitted s @ [Emit selectNodeEvent (ISelectNodeEvent n selected)]\<rparr>"

definition emitSelectComponentEvent ::
  "cid \<Rightarrow> bool \<Rightarrow> selection_controller \<Rightarrow> selection_controller" where
  "emitSelectComponentEvent c selected s =
     (let event = ISelectComponentEvent c selected
      in s\<lparr>sel_emitted := sel_emitted s @
             [Emit selectComponentEvent event,
              SystemEmitComponentEvent c selectNodeEvent event]\<rparr>)"

definition selectNode :: "nid \<Rightarrow> bool \<Rightarrow> selection_controller \<Rightarrow> selection_controller" where
  "selectNode n toggle s =
     (let multi = (multiSelect s \<and> toggle) in
      if n \<in> set (selectedNodes s) then
        (if multi
         then emitSelectNodeEvent n False (s\<lparr>selectedNodes := set_delete n (selectedNodes s)\<rparr>)
         else s)
      else
        let s1 = (if exclusiveSelect s
                  then (fold (\<lambda>c. emitSelectComponentEvent c False) (selectedComponents s) s)
                         \<lparr>selectedComponents := []\<rparr>
                  else s);
            s2 = (if \<not> multi
                  then (fold (\<lambda>m. emitSelectNodeEvent m False) (selectedNodes s1) s1)
                         \<lparr>selectedNodes := []\<rparr>
                  else s1);
            s3 = s2\<lparr>selectedNodes := set_add n (selectedNodes s2)\<rparr>
        in emitSelectNodeEvent n True s3)"

definition selectComponent :: "cid \<Rightarrow> bool \<Rightarrow> selection_controller \<Rightarrow> selection_controller" where
  "selectComponent c toggle s =
     (let multi = (multiSelect s \<and> toggle) in
      if c \<in> set (selectedComponents s) then
        (if multi
         then emitSelectComponentEvent c False
                (s\<lparr>selectedComponents := set_delete c (selectedComponents s)\<rparr>)
         else s)
      else
        let s1 = (if exclusiveSelect s
                  then (fold (\<lambda>m. emitSelectNodeEvent m False) (selectedNodes s) s)
                         \<lparr>selectedNodes := []\<rparr>
                  else s);
            s2 = (if \<not> multi
                  then (fold (\<lambda>d. emitSelectComponentEvent d False) (selectedComponents s1) s1)
                         \<lparr>selectedComponents := []\<rparr>
                  else s1);
            s3 = s2\<lparr>selectedComponents := set_add c (selectedComponents s2)\<rparr>
        in emitSelectComponentEvent c True s3)"

text \<open>
  The System's node event as the handler reads it (\<open>event.remove\<close>, \<open>event.node\<close>).
\<close>

record system_node_event =
  remove_ev :: bool
  node_ev :: nid

definition onSystemNode :: "system_node_event \<Rightarrow> selection_controller \<Rightarrow> selection_controller" where
  "onSystemNode event s =
     (let s1 = (if remove_ev event \<and> node_ev event \<in> set (selectedNodes s)
                then selectNode (node_ev event) False s
                else s)
      in s1\<lparr>sel_emitted := sel_emitted s1 @ [Emit updateEvent NoPayload]\<rparr>)"

text \<open>A user action on the controller, and a run of actions.\<close>

datatype action = SelectNode nid bool | SelectComponent cid bool

fun perform :: "action \<Rightarrow> selection_controller \<Rightarrow> selection_controller" where
  "perform (SelectNode n toggle) s = selectNode n toggle s"
| "perform (SelectComponent c toggle) s = selectComponent c toggle s"

text \<open>At most one of the two selection sets is non-empty.\<close>

definition exclusive_inv :: "selection_controller \<Rightarrow> bool" where
  "exclusive_inv s \<longleftrightarrow> selectedNodes s = [] \<or> selectedComponents s = []"

text \<open>The events that deselect every member of a selection set, in iteration order.\<close>

definition deselect_nodes :: "nid list \<Rightarrow> sel_emission list" where
  "deselect_nodes ns = map (\<lambda>m. Emit selectNodeEvent (ISelectNodeEvent m False)) ns"

definition deselect_components :: "cid list \<Rightarrow> sel_emission list" where
  "deselect_components cs =
     concat (map (\<lambda>d. [Emit selectComponentEvent (ISelectComponentEvent d False),
                        SystemEmitComponentEvent d selectNodeEvent (ISelectComponentEvent d False)]) cs)"

section \<open>Facts about the upward multicast\<close>

lemma upchain_None_iff: "upchain par None hs \<longleftrightarrow> hs = []"
  by (auto intro: upchain.intros elim: upchain.cases)

lemma upchain_Some_iff:
  "upchain par (Some h) hs \<longleftrightarrow> (\<exists>hs'. hs = h # hs' \<and> upchain par (par h) hs')"
  by (auto intro: upchain.intros elim: upchain.cases)

lemma upchain_update:
  assumes "upchain par c hs" and "b \<notin> set hs"
  shows "upchain (par(b := v)) c hs"
  using assms
proof (induction rule: upchain.induct)
  case (top par)
  show ?case by (rule upchain.top)
next
  case (up par h hs)
  from up.prems have "h \<noteq> b" and "b \<notin> set hs" by auto
  from up.IH [OF this(2)] have "upchain (par(b := v)) (par h) hs" .
  with \<open>h \<noteq> b\<close> have "upchain (par(b := v)) ((par(b := v)) h) hs" by simp
  then show ?case by (rule upchain.up)
qed

text \<open>On a chain that reaches the top the walk returns, having emitted along the chain.\<close>

lemma emit_walk_chain:
  assumes "upchain par c hs" and "parent s = par"
  shows "emit_walk event c s = Some (s\<lparr>emitted := emitted s @ multicast (node s) event hs\<rparr>)"
  using assms
proof (induction arbitrary: s rule: upchain.induct)
  case (top par)
  show ?case by (subst emit_walk.simps) (simp add: multicast_def)
next
  case (up par h hs)
  let ?s = "s\<lparr>emitted := emitted s @ [EmitAtComponent h event, EmitAtNode (node s h) event]\<rparr>"
  have "emit_walk event (Some h) s = emit_walk event (parent s h) ?s"
    by (subst emit_walk.simps) simp
  also have "\<dots> = emit_walk event (par h) ?s"
    using up.prems by simp
  also have "\<dots> = Some (?s\<lparr>emitted := emitted ?s @ multicast (node ?s) event hs\<rparr>)"
    using up.prems by (intro up.IH) simp
  finally show ?case by (simp add: multicast_def)
qed

text \<open>
  On parent references that never reach the top the walk does not return: \<open>S\<close> is a set
  of hierarchies closed under taking the parent.
\<close>

lemma emit_walk_diverges:
  assumes closed: "\<And>h. h \<in> S \<Longrightarrow> \<exists>h'. par h = Some h' \<and> h' \<in> S"
    and start: "c \<in> S" and par: "parent s = par"
  shows "emit_walk event (Some c) s = None"
proof (cases "emit_walk event (Some c) s")
  case None
  then show ?thesis .
next
  case (Some y)
  let ?P = "\<lambda>(ev::hierarchy_event) cur s' (y::hstate).
              \<not> (\<exists>h. cur = Some h \<and> h \<in> S \<and> parent s' = par)"
  have "?P event (Some c) s y"
  proof (rule emit_walk.raw_induct [where P = ?P, OF _ Some])
    fix walk ev cur s' y'
    assume IH: "\<And>ev cur s' y'. walk ev cur s' = Some y' \<Longrightarrow> ?P ev cur s' y'"
      and step: "(case cur of None \<Rightarrow> Some s'
                  | Some c \<Rightarrow> walk ev (parent s' c)
                      (s'\<lparr>emitted := emitted s' @
                          [EmitAtComponent c ev, EmitAtNode (node s' c) ev]\<rparr>)) = Some y'"
    show "?P ev cur s' y'"
    proof
      assume "\<exists>h. cur = Some h \<and> h \<in> S \<and> parent s' = par"
      then obtain h where h: "cur = Some h" "h \<in> S" "parent s' = par" by blast
      from closed [OF h(2)] obtain h' where h': "par h = Some h'" "h' \<in> S" by blast
      let ?s = "s'\<lparr>emitted := emitted s' @ [EmitAtComponent h ev, EmitAtNode (node s' h) ev]\<rparr>"
      from step h h' have "walk ev (Some h') ?s = Some y'" by simp
      from IH [OF this] h' h(3) show False by simp
    qed
  qed
  with start par show ?thesis by blast
qed

text \<open>The walk changes the trace only.\<close>

lemma emit_walk_frame:
  assumes "emit_walk event c s = Some s'"
  shows "parent s' = parent s \<and> children s' = children s"
proof -
  let ?P = "\<lambda>(ev::hierarchy_event) (cur::hid option) s s'.
              parent s' = parent s \<and> children s' = children s"
  show ?thesis
  proof (rule emit_walk.raw_induct [where P = ?P, OF _ assms])
    fix walk ev cur s y
    assume IH: "\<And>ev cur s y. walk ev cur s = Some y \<Longrightarrow> ?P ev cur s y"
      and step: "(case cur of None \<Rightarrow> Some s
                  | Some c \<Rightarrow> walk ev (parent s c)
                      (s\<lparr>emitted := emitted s @
                          [EmitAtComponent c ev, EmitAtNode (node s c) ev]\<rparr>)) = Some y"
    show "?P ev cur s y"
    proof (cases cur)
      case None
      with step show ?thesis by simp
    next
      case (Some c)
      with step have "walk ev (parent s c)
          (s\<lparr>emitted := emitted s @ [EmitAtComponent c ev, EmitAtNode (node s c) ev]\<rparr>) = Some y"
        by simp
      from IH [OF this] show ?thesis by simp
    qed
  qed
qed

text \<open>Removing a listed element by \<open>indexOf\<close> and \<open>splice\<close> removes its first occurrence.\<close>

lemma indexOf_nonneg: "x \<in> set xs \<Longrightarrow> 0 \<le> indexOf xs x"
  by (induction xs) (auto simp add: Let_def)

lemma indexOf_less: "x \<in> set xs \<Longrightarrow> indexOf xs x < int (length xs)"
  by (induction xs) (auto simp add: Let_def)

lemma splice1_indexOf: "x \<in> set xs \<Longrightarrow> splice1 (indexOf xs x) xs = remove1 x xs"
proof (induction xs)
  case Nil
  then show ?case by simp
next
  case (Cons y ys)
  show ?case
  proof (cases "y = x")
    case True
    then show ?thesis by (simp add: splice1_def)
  next
    case False
    with Cons.prems have mem: "x \<in> set ys" by simp
    from indexOf_nonneg [OF mem] indexOf_less [OF mem]
    have bounds: "0 \<le> indexOf ys x" "indexOf ys x < int (length ys)" .
    from Cons.IH [OF mem] bounds
    have "take (nat (indexOf ys x)) ys @ drop (nat (indexOf ys x) + 1) ys = remove1 x ys"
      by (simp add: splice1_def Let_def min_def)
    with False bounds show ?thesis
      by (simp add: splice1_def Let_def min_def nat_add_distrib)
  qed
qed

text \<open>
  A lookup that reports a miss as an empty result makes the loop of \<open>getParent\<close> spin:
  the loop variable is never moved to the next ancestor.
\<close>

lemma getParent_loop_spins:
  assumes miss: "get (node_components s (node s p)) ty = Inr None"
  shows "getParent_loop get ty (Some p) s = None"
proof (cases "getParent_loop get ty (Some p) s")
  case None
  then show ?thesis .
next
  case (Some y)
  let ?P = "\<lambda>(g::lookup) t cur s' (y::error + component option).
              \<not> (g = get \<and> t = ty \<and> cur = Some p \<and> s' = s)"
  have "?P get ty (Some p) s y"
  proof (rule getParent_loop.raw_induct [where P = ?P, OF _ Some])
    fix loop g t cur s' y'
    assume IH: "\<And>g t cur s' y'. loop g t cur s' = Some y' \<Longrightarrow> ?P g t cur s' y'"
      and step: "(case cur of None \<Rightarrow> Some (Inr None)
                  | Some p \<Rightarrow>
                      (case g (node_components s' (node s' p)) t of
                         Inl e \<Rightarrow> Some (Inl e)
                       | Inr None \<Rightarrow> loop g t cur s'
                       | Inr (Some c) \<Rightarrow> Some (Inr (Some c)))) = Some y'"
    show "?P g t cur s' y'"
    proof
      assume eq: "g = get \<and> t = ty \<and> cur = Some p \<and> s' = s"
      with step miss have "loop get ty (Some p) s = Some y'" by simp
      from IH [OF this] show False by simp
    qed
  qed
  then show ?thesis by simp
qed

section \<open>Attaching and removing children\<close>

text \<open>
  Claim C8. When \<open>addChild\<close> is given a component that already has a parent, or
  \<open>removeChild\<close> a component whose parent is not the receiver, the call throws its
  error and the store it leaves is the store it found: every parent reference and every
  children list is as before, and the trace of emitted events has not grown.
\<close>

theorem failed_call_leaves_store_untouched:
  "(parent s component \<noteq> None \<longrightarrow>
      addChild this component s =
        Some (Inl (StructuralViolation ''component should not have a parent''), s)) \<and>
   (parent s component \<noteq> Some this \<longrightarrow>
      removeChild this component s =
        Some (Inl (StructuralViolation ''component not a child of this''), s))"
  by (simp add: addChild_def removeChild_def)

text \<open>
  On the chain root \<rightarrow> mid \<rightarrow> leaf: attaching the leaf to the root, and removing the leaf
  from the root, both fail and leave the chain as it is.
\<close>

theorem failed_call_leaves_store_untouched_witness:
  "parent chain3 2 \<noteq> None \<and>
   addChild 0 2 chain3 =
     Some (Inl (StructuralViolation ''component should not have a parent''), chain3) \<and>
   parent chain3 2 \<noteq> Some 0 \<and>
   removeChild 0 2 chain3 =
     Some (Inl (StructuralViolation ''component not a child of this''), chain3)"
  using failed_call_leaves_store_untouched [of chain3 2 0]
  by (simp add: chain3_def fresh_def)

text \<open>
  What a successful \<open>addChild\<close> returns: the child's parent set, the child appended to
  the receiver's children, and the event emitted at the child and then along the
  receiver's ancestor chain \<open>hs\<close>. The child must not lie on that chain.
\<close>

lemma addChild_result:
  assumes "parent s B = None" and "upchain (parent s) (Some A) hs" and "B \<notin> set hs"
  shows "addChild A B s =
     Some (Inr (),
       s\<lparr>parent := (parent s)(B := Some A),
         children := (children s)(A := children s A @ [B]),
         emitted := emitted s @
           multicast (node s) \<lparr>ev_add = True, ev_remove = False, ev_parent = A, ev_child = B\<rparr>
             (B # hs)\<rparr>)"
proof -
  let ?ev = "\<lparr>ev_add = True, ev_remove = False, ev_parent = A, ev_child = B\<rparr>"
  let ?s2 = "s\<lparr>parent := (parent s)(B := Some A),
               children := (children s)(A := children s A @ [B])\<rparr>"
  from assms(2,3) have "upchain ((parent s)(B := Some A)) (Some A) hs"
    by (rule upchain_update)
  then have "upchain (parent ?s2) (Some B) (B # hs)"
    by (simp add: upchain_Some_iff)
  from emit_walk_chain [OF this refl, of ?ev]
  have walk: "emit_walk ?ev (Some B) ?s2 =
                Some (?s2\<lparr>emitted := emitted ?s2 @ multicast (node ?s2) ?ev (B # hs)\<rparr>)" .
  have "addChild A B s = map_option (\<lambda>s'. (Inr (), s')) (emit_walk ?ev (Some B) ?s2)"
    using assms(1) by (simp add: addChild_def Let_def)
  with walk show ?thesis by simp
qed

text \<open>
  What a successful \<open>removeChild\<close> returns. The child's parent reference is cleared
  before the walk starts, so the walk ends after the child: the event is emitted at the
  child and at the child's node and nowhere else.
\<close>

lemma removeChild_result:
  assumes "parent s B = Some A"
  shows "removeChild A B s =
     Some (Inr (),
       s\<lparr>children := (children s)(A := splice1 (indexOf (children s A) B) (children s A)),
         parent := (parent s)(B := None),
         emitted := emitted s @
           multicast (node s) \<lparr>ev_add = False, ev_remove = True, ev_parent = A, ev_child = B\<rparr>
             [B]\<rparr>)"
proof -
  let ?ev = "\<lparr>ev_add = False, ev_remove = True, ev_parent = A, ev_child = B\<rparr>"
  let ?s2 = "s\<lparr>children := (children s)(A := splice1 (indexOf (children s A) B) (children s A)),
               parent := (parent s)(B := None)\<rparr>"
  have "upchain (parent ?s2) (Some B) [B]"
    by (simp add: upchain_Some_iff upchain_None_iff)
  from emit_walk_chain [OF this refl, of ?ev]
  have walk: "emit_walk ?ev (Some B) ?s2 =
                Some (?s2\<lparr>emitted := emitted ?s2 @ multicast (node ?s2) ?ev [B]\<rparr>)" .
  have "removeChild A B s = map_option (\<lambda>s'. (Inr (), s')) (emit_walk ?ev (Some B) ?s2)"
    using assms by (simp add: removeChild_def Let_def)
  with walk show ?thesis by simp
qed

text \<open>
  Fresh hierarchies are consistent, and every call of \<open>addChild\<close> or \<open>removeChild\<close>
  that returns keeps the store consistent. In a consistent store a hierarchy without a
  parent is in no child list.
\<close>

lemma consistent_fresh: "consistent fresh"
  by (simp add: consistent_def fresh_def)

lemma consistent_detached: "consistent s \<Longrightarrow> parent s B = None \<Longrightarrow> B \<notin> set (children s A)"
  by (simp add: consistent_def)

lemma addChild_consistent:
  assumes "consistent s" and "addChild A B s = Some (Inr (), s')"
  shows "consistent s'"
proof -
  let ?ev = "\<lparr>ev_add = True, ev_remove = False, ev_parent = A, ev_child = B\<rparr>"
  let ?s2 = "s\<lparr>parent := (parent s)(B := Some A),
               children := (children s)(A := children s A @ [B])\<rparr>"
  from assms(2) have free: "parent s B = None"
    by (auto simp add: addChild_def split: if_splits)
  with assms(2) have "emit_walk ?ev (Some B) ?s2 = Some s'"
    by (auto simp add: addChild_def Let_def)
  from emit_walk_frame [OF this]
  have frame: "parent s' = parent ?s2" "children s' = children ?s2" by simp_all
  from assms(1) free have "consistent ?s2"
    unfolding consistent_def by auto
  with frame show ?thesis
    by (simp add: consistent_def)
qed

lemma removeChild_consistent:
  assumes "consistent s" and "removeChild A B s = Some (Inr (), s')"
  shows "consistent s'"
proof -
  from assms(2) have par: "parent s B = Some A"
    by (auto simp add: removeChild_def split: if_splits)
  with assms(1) have mem: "B \<in> set (children s A)"
    by (simp add: consistent_def)
  from removeChild_result [OF par] assms(2)
  have s': "parent s' = (parent s)(B := None)"
    "children s' = (children s)(A := remove1 B (children s A))"
    by (auto simp add: splice1_indexOf [OF mem])
  from assms(1) par show ?thesis
    unfolding consistent_def s' by (auto simp add: distinct_remove1_removeAll distinct_removeAll)
qed

text \<open>
  Claim C5, as stated, at \<open>A = B\<close>: a fresh hierarchy has no parent, and adding it to
  itself makes it its own parent, after which the upward walk never reaches a top. The
  call does not return, so there is no state after it.
\<close>

theorem addChild_to_itself_never_returns: "addChild 0 0 fresh = None"
proof -
  let ?ev = "\<lparr>ev_add = True, ev_remove = False, ev_parent = 0, ev_child = 0\<rparr>"
  let ?s2 = "fresh\<lparr>parent := (parent fresh)(0 := Some 0),
                   children := (children fresh)(0 := children fresh 0 @ [0])\<rparr>"
  have "emit_walk ?ev (Some 0) ?s2 = None"
    by (rule emit_walk_diverges [where S = "{0}" and par = "parent ?s2"]) simp_all
  moreover have "addChild 0 0 fresh = map_option (\<lambda>s'. (Inr (), s')) (emit_walk ?ev (Some 0) ?s2)"
    by (simp add: addChild_def fresh_def Let_def)
  ultimately show ?thesis by simp
qed

text \<open>
  Claim C5, amended. Let \<open>B\<close> have no parent and be listed in no child list of \<open>A\<close>
  (as in every consistent store), and let \<open>B\<close> be neither \<open>A\<close> nor an
  ancestor of \<open>A\<close>: the chain \<open>hs\<close> from \<open>A\<close> to its root does not contain \<open>B\<close>. Then
  \<open>A.addChild(B)\<close> returns; afterwards \<open>B.parent\<close> is \<open>A\<close> and \<open>A.children\<close> contains
  \<open>B\<close> exactly once; and a second \<open>A.addChild(B)\<close> fails with the structural error,
  leaving the store as it is.
\<close>

theorem addChild_attaches_once:
  assumes "parent s B = None" and "B \<notin> set (children s A)"
    and "upchain (parent s) (Some A) hs" and "B \<notin> set hs"
  shows "\<exists>s'. addChild A B s = Some (Inr (), s') \<and>
              parent s' B = Some A \<and>
              count_list (children s' A) B = 1 \<and>
              addChild A B s' =
                Some (Inl (StructuralViolation ''component should not have a parent''), s')"
proof -
  let ?s' = "s\<lparr>parent := (parent s)(B := Some A),
               children := (children s)(A := children s A @ [B]),
               emitted := emitted s @
                 multicast (node s) \<lparr>ev_add = True, ev_remove = False, ev_parent = A, ev_child = B\<rparr>
                   (B # hs)\<rparr>"
  from assms(1,3,4) have first: "addChild A B s = Some (Inr (), ?s')"
    by (rule addChild_result)
  have par: "parent ?s' B = Some A" by simp
  from assms(2) have once: "count_list (children ?s' A) B = 1"
    by (simp add: count_list_0_iff)
  from par have second: "addChild A B ?s' =
      Some (Inl (StructuralViolation ''component should not have a parent''), ?s')"
    by (simp add: addChild_def)
  from first par once second show ?thesis by blast
qed

text \<open>Attaching the detached leaf under mid, in the chain root \<rightarrow> mid.\<close>

theorem addChild_attaches_once_witness:
  "parent chain2 2 = None \<and> 2 \<notin> set (children chain2 1) \<and>
   upchain (parent chain2) (Some 1) [1, 0] \<and> 2 \<notin> set [1, 0::hid] \<and>
   (\<exists>s'. addChild 1 2 chain2 = Some (Inr (), s') \<and>
         parent s' 2 = Some 1 \<and>
         count_list (children s' 1) 2 = 1 \<and>
         addChild 1 2 s' =
           Some (Inl (StructuralViolation ''component should not have a parent''), s'))"
proof -
  have h1: "parent chain2 2 = None" by (simp add: chain2_def)
  have h2: "2 \<notin> set (children chain2 1)" by (simp add: chain2_def)
  have h3: "upchain (parent chain2) (Some 1) [1, 0]"
    by (simp add: chain2_def upchain_Some_iff upchain_None_iff)
  have h4: "2 \<notin> set [1, 0::hid]" by simp
  from addChild_attaches_once [OF h1 h2 h3 h4] h1 h2 h3 h4 show ?thesis by blast
qed

text \<open>
  The same happens when the new child is an ancestor of the receiver: attaching the root
  under mid, in the chain root \<rightarrow> mid, never returns either.
\<close>

lemma addChild_under_descendant_never_returns: "addChild 1 0 chain2 = None"
proof -
  let ?ev = "\<lparr>ev_add = True, ev_remove = False, ev_parent = 1, ev_child = 0\<rparr>"
  let ?s2 = "chain2\<lparr>parent := (parent chain2)(0 := Some 1),
                    children := (children chain2)(1 := children chain2 1 @ [0])\<rparr>"
  have "emit_walk ?ev (Some 0) ?s2 = None"
    by (rule emit_walk_diverges [where S = "{0, 1}" and par = "parent ?s2"])
      (auto simp add: chain2_def)
  moreover have "addChild 1 0 chain2 = map_option (\<lambda>s'. (Inr (), s')) (emit_walk ?ev (Some 0) ?s2)"
    by (simp add: addChild_def chain2_def fresh_def Let_def)
  ultimately show ?thesis by simp
qed

text \<open>
  Claim C1. The claim is that \<open>removeChild\<close> emits the hierarchy event at the removed
  child, its node, and every former ancestor up to the root, as \<open>addChild\<close> does. On the
  chain root \<rightarrow> mid \<rightarrow> leaf, \<open>mid.removeChild(leaf)\<close> does remove the leaf from mid's
  children and clear its parent, but the trace it leaves holds the event at the leaf and
  at the leaf's node (12) only: nothing is emitted at mid, at root or at their nodes.
  Attaching the same leaf under mid emits at all three hierarchies and their nodes.
\<close>

theorem removeChild_emits_at_child_only:
  "removeChild 1 2 chain3 =
     Some (Inr (),
       chain3\<lparr>children := (children chain3)(1 := []),
              parent := (parent chain3)(2 := None),
              emitted :=
                [EmitAtComponent 2 \<lparr>ev_add = False, ev_remove = True, ev_parent = 1, ev_child = 2\<rparr>,
                 EmitAtNode 12 \<lparr>ev_add = False, ev_remove = True, ev_parent = 1, ev_child = 2\<rparr>]\<rparr>) \<and>
   map_option (emitted \<circ> snd) (addChild 1 2 chain2) =
     Some [EmitAtComponent 2 \<lparr>ev_add = True, ev_remove = False, ev_parent = 1, ev_child = 2\<rparr>,
           EmitAtNode 12 \<lparr>ev_add = True, ev_remove = False, ev_parent = 1, ev_child = 2\<rparr>,
           EmitAtComponent 1 \<lparr>ev_add = True, ev_remove = False, ev_parent = 1, ev_child = 2\<rparr>,
           EmitAtNode 11 \<lparr>ev_add = True, ev_remove = False, ev_parent = 1, ev_child = 2\<rparr>,
           EmitAtComponent 0 \<lparr>ev_add = True, ev_remove = False, ev_parent = 1, ev_child = 2\<rparr>,
           EmitAtNode 10 \<lparr>ev_add = True, ev_remove = False, ev_parent = 1, ev_child = 2\<rparr>]"
proof
  have "parent chain3 2 = Some 1"
    by (simp add: chain3_def)
  from removeChild_result [OF this]
  show "removeChild 1 2 chain3 =
     Some (Inr (),
       chain3\<lparr>children := (children chain3)(1 := []),
              parent := (parent chain3)(2 := None),
              emitted :=
                [EmitAtComponent 2 \<lparr>ev_add = False, ev_remove = True, ev_parent = 1, ev_child = 2\<rparr>,
                 EmitAtNode 12 \<lparr>ev_add = False, ev_remove = True, ev_parent = 1, ev_child = 2\<rparr>]\<rparr>)"
    by (simp add: multicast_def chain3_def fresh_def splice1_def)
next
  have "parent chain2 2 = None" "upchain (parent chain2) (Some 1) [1, 0]" "2 \<notin> set [1, 0::hid]"
    by (simp_all add: chain2_def upchain_Some_iff upchain_None_iff)
  from addChild_result [OF this]
  show "map_option (emitted \<circ> snd) (addChild 1 2 chain2) =
     Some [EmitAtComponent 2 \<lparr>ev_add = True, ev_remove = False, ev_parent = 1, ev_child = 2\<rparr>,
           EmitAtNode 12 \<lparr>ev_add = True, ev_remove = False, ev_parent = 1, ev_child = 2\<rparr>,
           EmitAtComponent 1 \<lparr>ev_add = True, ev_remove = False, ev_parent = 1, ev_child = 2\<rparr>,
           EmitAtNode 11 \<lparr>ev_add = True, ev_remove = False, ev_parent = 1, ev_child = 2\<rparr>,
           EmitAtComponent 0 \<lparr>ev_add = True, ev_remove = False, ev_parent = 1, ev_child = 2\<rparr>,
           EmitAtNode 10 \<lparr>ev_add = True, ev_remove = False, ev_parent = 1, ev_child = 2\<rparr>]"
    by (simp add: multicast_def chain2_def fresh_def)
qed

section \<open>Searching the ancestors\<close>

text \<open>
  With a lookup that answers a miss with an empty result, a recursive search that misses
  at the parent and at the grandparent never returns.
\<close>

lemma getParent_recursive_spins:
  assumes "parent s h = Some p" and "parent s p = Some g"
    and "get (node_components s (node s p)) ty = Inr None"
    and "get (node_components s (node s g)) ty = Inr None"
  shows "getParent get ty True h s = None"
  using assms by (simp add: getParent_def getParent_loop_spins)

text \<open>
  Claim C2. The claim is that \<open>getParent(type, true)\<close> terminates and returns null when
  no ancestor has the type. On the chain root \<rightarrow> mid \<rightarrow> leaf, where no node carries a
  component of type CModel, \<open>leaf.getParent(CModel, true)\<close> does not return null. With a
  registry lookup that answers a miss with an empty result, the loop spins at the
  grandparent and the call never returns; with the lookup the specification describes
  (a miss throws unless \<open>noThrow\<close> is passed, and it is not), the call throws at the
  direct parent.
\<close>

theorem getParent_recursive_never_returns_null:
  "getParent (\<lambda>reg t. registry_get reg t True) ''CModel'' True 2 chain3 = None \<and>
   getParent (\<lambda>reg t. registry_get reg t False) ''CModel'' True 2 chain3 =
     Some (Inl (LookupMiss ''CModel''))"
proof
  have miss: "registry_get (node_components chain3 (node chain3 h)) ''CModel'' True = Inr None" for h
    by (simp add: chain3_def fresh_def registry_get_def registry_add_def registry_file_def
        registry_empty_def hierarchy_component_def)
  have "getParent_loop (\<lambda>reg t. registry_get reg t True) ''CModel'' (Some 0) chain3 = None"
    by (rule getParent_loop_spins) (rule miss)
  moreover have "parent chain3 2 = Some 1" "parent chain3 1 = Some 0"
    by (simp_all add: chain3_def)
  ultimately show "getParent (\<lambda>reg t. registry_get reg t True) ''CModel'' True 2 chain3 = None"
    by (simp add: getParent_def miss)
next
  have miss: "registry_get (node_components chain3 (node chain3 h)) ''CModel'' False
                = Inl (LookupMiss ''CModel'')" for h
    by (simp add: chain3_def fresh_def registry_get_def registry_add_def registry_file_def
        registry_empty_def hierarchy_component_def)
  have "parent chain3 2 = Some 1"
    by (simp add: chain3_def)
  then show "getParent (\<lambda>reg t. registry_get reg t False) ''CModel'' True 2 chain3 =
     Some (Inl (LookupMiss ''CModel''))"
    by (simp add: getParent_def miss)
qed

section \<open>Registering components with the System\<close>

text \<open>Filing an object keeps what a bucket holds and puts the object under its own type.\<close>

lemma registry_file_keeps: "x \<in> set (reg t) \<Longrightarrow> x \<in> set (registry_file obj t' reg t)"
  by (auto simp add: registry_file_def)

lemma registry_file_self: "obj \<in> set (registry_file obj t reg t)"
  by (simp add: registry_file_def)

lemma fold_registry_file_keeps:
  "x \<in> set (reg t) \<Longrightarrow> x \<in> set (fold (registry_file obj) ts reg t)"
  by (induction ts arbitrary: reg) (simp_all add: registry_file_keeps)

lemma registry_add_keeps: "x \<in> set (reg t) \<Longrightarrow> x \<in> set (registry_add reg obj t)"
  by (simp add: registry_add_def fold_registry_file_keeps registry_file_keeps)

lemma registry_add_self: "obj \<in> set (registry_add reg obj (typeName obj))"
  by (simp add: registry_add_def fold_registry_file_keeps registry_file_self)

text \<open>
  Claim C6. \<open>_addComponent\<close> fails with the duplicate-singleton error, leaving the
  System as it is, when the component declares itself a system singleton and the global
  registry already holds an instance of its type. In every other case it returns normally
  and the component is then found under its type. In particular two components that are
  not singletons are both accepted, one after the other, and both are registered.
\<close>

theorem addComponent_singleton_guard:
  "(isSystemSingleton c \<and> registry_has (components s) (typeName c) \<longrightarrow>
      addComponent c s = (Inl (DuplicateSingleton (singleton_message c)), s)) \<and>
   (\<not> (isSystemSingleton c \<and> registry_has (components s) (typeName c)) \<longrightarrow>
      fst (addComponent c s) = Inr () \<and>
      c \<in> set (registry_getArray (components (snd (addComponent c s))) (typeName c))) \<and>
   (\<not> isSystemSingleton c1 \<and> \<not> isSystemSingleton c2 \<longrightarrow>
      fst (addComponent c1 s) = Inr () \<and>
      fst (addComponent c2 (snd (addComponent c1 s))) = Inr () \<and>
      c1 \<in> set (registry_getArray
                 (components (snd (addComponent c2 (snd (addComponent c1 s))))) (typeName c1)) \<and>
      c2 \<in> set (registry_getArray
                 (components (snd (addComponent c2 (snd (addComponent c1 s))))) (typeName c2)))"
  by (auto simp add: addComponent_def registry_getArray_def registry_add_self registry_add_keeps)

text \<open>
  A second renderer (a singleton type) is refused once the first is registered; two
  hierarchy components (not a singleton type) are both accepted.
\<close>

theorem addComponent_singleton_guard_witness:
  "isSystemSingleton (renderer 2) \<and>
   registry_has (components (snd (addComponent (renderer 1) system_new))) (typeName (renderer 2)) \<and>
   fst (addComponent (renderer 1) system_new) = Inr () \<and>
   fst (addComponent (renderer 2) (snd (addComponent (renderer 1) system_new))) =
     Inl (DuplicateSingleton ''only one component of type 'CRenderer' allowed per system'') \<and>
   \<not> isSystemSingleton (hierarchy_component 0) \<and> \<not> isSystemSingleton (hierarchy_component 1) \<and>
   fst (addComponent (hierarchy_component 0) system_new) = Inr () \<and>
   fst (addComponent (hierarchy_component 1)
          (snd (addComponent (hierarchy_component 0) system_new))) = Inr ()"
proof -
  let ?s1 = "snd (addComponent (renderer 1) system_new)"
  have h1: "isSystemSingleton (renderer 2) \<and> registry_has (components ?s1) (typeName (renderer 2))"
    by (simp add: addComponent_def system_new_def renderer_def registry_has_def registry_add_def
        registry_file_def registry_empty_def)
  have h2: "\<not> (isSystemSingleton (renderer 1) \<and>
               registry_has (components system_new) (typeName (renderer 1)))"
    by (simp add: system_new_def registry_has_def registry_empty_def)
  have h3: "\<not> isSystemSingleton (hierarchy_component 0) \<and> \<not> isSystemSingleton (hierarchy_component 1)"
    by (simp add: hierarchy_component_def)
  have msg: "singleton_message (renderer 2) =
               ''only one component of type 'CRenderer' allowed per system''"
    by (simp add: singleton_message_def renderer_def)
  from addComponent_singleton_guard [of "renderer 2" ?s1] h1
  have a: "fst (addComponent (renderer 2) ?s1) =
             Inl (DuplicateSingleton ''only one component of type 'CRenderer' allowed per system'')"
    by (simp add: msg)
  from addComponent_singleton_guard [of "renderer 1" system_new] h2
  have b: "fst (addComponent (renderer 1) system_new) = Inr ()"
    by blast
  from addComponent_singleton_guard
         [of _ system_new "hierarchy_component 0" "hierarchy_component 1"] h3
  have c: "fst (addComponent (hierarchy_component 0) system_new) = Inr () \<and>
           fst (addComponent (hierarchy_component 1)
                  (snd (addComponent (hierarchy_component 0) system_new))) = Inr ()"
    by blast
  from h1 h3 a b c show ?thesis by blast
qed


section \<open>The graph-hosting component\<close>

text \<open>
  Claim C3. The claim is that \<open>deflate()\<close> returns a serialized record carrying the
  nested Graph's serialized form under \<open>graph\<close>. The source computes that record and
  lets it go: for every hosting component, whatever the inherited deflate and the nested
  Graph's deflate produce, the call evaluates to \<open>undefined\<close>, which has no \<open>graph\<close>
  field.
\<close>

theorem deflate_returns_undefined:
  "CGraph_deflate Component_deflate Graph_deflate this = JUndefined \<and>
   get_property (CGraph_deflate Component_deflate Graph_deflate this) ''graph'' = None"
  by (simp add: CGraph_deflate_def Let_def)

text \<open>
  Claim C9. For every update context and every hosting component, whatever its
  \<open>changed\<close> flag was, after \<open>tick\<close> the flag is set; the value returned is the result
  of the nested Graph's tick pass, the nested graph is the one that pass leaves, and the
  designated root is untouched.
\<close>

theorem tick_marks_changed_then_delegates:
  "changed (snd (CGraph_tick Graph_tick context this)) \<and>
   fst (CGraph_tick Graph_tick context this) = fst (Graph_tick context (graph_c this)) \<and>
   graph_c (snd (CGraph_tick Graph_tick context this)) = snd (Graph_tick context (graph_c this)) \<and>
   root (snd (CGraph_tick Graph_tick context this)) = root this"
  by (simp add: CGraph_tick_def Let_def split: prod.splits)

section \<open>Selection\<close>

text \<open>
  The two loops that announce a deselection emit one batch of events and change nothing
  else; from there, what \<open>selectNode\<close> and \<open>selectComponent\<close> do in single-select,
  exclusive operation is a plain record update.
\<close>

lemma fold_emitSelectNodeEvent:
  "fold (\<lambda>m. emitSelectNodeEvent m False) ns s =
     s\<lparr>sel_emitted := sel_emitted s @ deselect_nodes ns\<rparr>"
  by (induction ns arbitrary: s) (simp_all add: deselect_nodes_def emitSelectNodeEvent_def)

lemma fold_emitSelectComponentEvent:
  "fold (\<lambda>d. emitSelectComponentEvent d False) cs s =
     s\<lparr>sel_emitted := sel_emitted s @ deselect_components cs\<rparr>"
  by (induction cs arbitrary: s)
    (simp_all add: deselect_components_def emitSelectComponentEvent_def Let_def)

lemma selectNode_selected:
  "n \<in> set (selectedNodes s) \<Longrightarrow> \<not> (multiSelect s \<and> toggle) \<Longrightarrow> selectNode n toggle s = s"
  by (auto simp add: selectNode_def)

lemma selectComponent_selected:
  "c \<in> set (selectedComponents s) \<Longrightarrow> \<not> (multiSelect s \<and> toggle) \<Longrightarrow>
   selectComponent c toggle s = s"
  by (auto simp add: selectComponent_def)

lemma selectNode_single:
  assumes "n \<notin> set (selectedNodes s)" and "\<not> (multiSelect s \<and> toggle)" and "exclusiveSelect s"
  shows "selectNode n toggle s =
           s\<lparr>selectedNodes := [n], selectedComponents := [],
             sel_emitted := sel_emitted s @ deselect_components (selectedComponents s) @
               deselect_nodes (selectedNodes s) @ [Emit selectNodeEvent (ISelectNodeEvent n True)]\<rparr>"
  using assms
  by (simp add: selectNode_def Let_def fold_emitSelectNodeEvent fold_emitSelectComponentEvent
      emitSelectNodeEvent_def set_add_def)

lemma selectComponent_single:
  assumes "c \<notin> set (selectedComponents s)" and "\<not> (multiSelect s \<and> toggle)"
    and "exclusiveSelect s"
  shows "selectComponent c toggle s =
           s\<lparr>selectedNodes := [], selectedComponents := [c],
             sel_emitted := sel_emitted s @ deselect_nodes (selectedNodes s) @
               deselect_components (selectedComponents s) @
               [Emit selectComponentEvent (ISelectComponentEvent c True),
                SystemEmitComponentEvent c selectNodeEvent (ISelectComponentEvent c True)]\<rparr>"
  using assms
  by (simp add: selectComponent_def Let_def fold_emitSelectNodeEvent fold_emitSelectComponentEvent
      emitSelectComponentEvent_def set_add_def)

lemma onSystemNode_only_updates:
  "onSystemNode event s = s\<lparr>sel_emitted := sel_emitted s @ [Emit updateEvent NoPayload]\<rparr>"
  by (simp add: onSystemNode_def Let_def selectNode_selected [where toggle = False, simplified])

text \<open>
  Claim C4. The claim is that a removal event for a selected node makes the controller
  drop the node from the selected set and emit a deselect event before the update
  notification. With node 7 selected in a new controller, the removal event for node 7
  leaves node 7 selected, and the only event the handler emits is the update
  notification: the handler calls \<open>selectNode(node, false)\<close>, which does nothing for a
  node that is already selected unless multi-select and toggle are both on.
\<close>

theorem removed_node_stays_selected:
  "selectedNodes (selectNode 7 False SelectionController_new) = [7] \<and>
   selectedNodes (onSystemNode \<lparr>remove_ev = True, node_ev = 7\<rparr>
                    (selectNode 7 False SelectionController_new)) = [7] \<and>
   sel_emitted (onSystemNode \<lparr>remove_ev = True, node_ev = 7\<rparr>
                  (selectNode 7 False SelectionController_new)) =
     [Emit ''node'' (ISelectNodeEvent 7 True), Emit ''update'' NoPayload]"
  by (simp add: onSystemNode_only_updates selectNode_single SelectionController_new_def
      deselect_nodes_def deselect_components_def selectNodeEvent_def updateEvent_def)

lemma deselect_nodes_member:
  assumes "n \<in> set ns"
  shows "\<exists>pre mid. deselect_nodes ns = pre @ [Emit selectNodeEvent (ISelectNodeEvent n False)] @ mid"
proof -
  from assms obtain xs ys where "ns = xs @ n # ys" by (auto dest: split_list)
  then have "deselect_nodes ns =
      deselect_nodes xs @ [Emit selectNodeEvent (ISelectNodeEvent n False)] @ deselect_nodes ys"
    by (simp add: deselect_nodes_def)
  then show ?thesis by blast
qed


lemma deselect_nodes_single [simp]: "deselect_nodes [] = []"
  by (simp add: deselect_nodes_def)

lemma deselect_components_empty [simp]: "deselect_components [] = []"
  by (simp add: deselect_components_def)

text \<open>
  Claim C7. With \<open>multiSelect\<close> off and \<open>exclusiveSelect\<close> on: selecting \<open>N1\<close> and then
  a different node \<open>N2\<close>, from a state where the two are not both selected already (the
  initial state, and every state this configuration reaches), leaves exactly \<open>N2\<close>
  selected, and the trace gains a deselect event for \<open>N1\<close> and, after it and last, the
  select event for \<open>N2\<close>. Selecting a component \<open>C\<close> that is not selected while a node
  \<open>N\<close> is empties the selected-node set and leaves exactly \<open>C\<close> selected, and the
  deselect event for \<open>N\<close> comes before the select events for \<open>C\<close>, which come last.
\<close>

theorem default_configuration_selection:
  assumes single: "\<not> multiSelect s" and excl: "exclusiveSelect s"
  shows "(N1 \<noteq> N2 \<and> (N1 \<notin> set (selectedNodes s) \<or> N2 \<notin> set (selectedNodes s)) \<longrightarrow>
            selectedNodes (selectNode N2 t2 (selectNode N1 t1 s)) = [N2] \<and>
            (\<exists>pre mid. sel_emitted (selectNode N2 t2 (selectNode N1 t1 s)) =
               sel_emitted s @ pre @ [Emit selectNodeEvent (ISelectNodeEvent N1 False)] @ mid @
                 [Emit selectNodeEvent (ISelectNodeEvent N2 True)])) \<and>
         (N \<in> set (selectedNodes s) \<and> C \<notin> set (selectedComponents s) \<longrightarrow>
            selectedNodes (selectComponent C t s) = [] \<and>
            selectedComponents (selectComponent C t s) = [C] \<and>
            (\<exists>pre mid. sel_emitted (selectComponent C t s) =
               sel_emitted s @ pre @ [Emit selectNodeEvent (ISelectNodeEvent N False)] @ mid @
                 [Emit selectComponentEvent (ISelectComponentEvent C True),
                  SystemEmitComponentEvent C selectNodeEvent (ISelectComponentEvent C True)]))"
proof (intro conjI impI)
  assume a: "N1 \<noteq> N2 \<and> (N1 \<notin> set (selectedNodes s) \<or> N2 \<notin> set (selectedNodes s))"
  let ?s1 = "selectNode N1 t1 s"
  let ?s2 = "selectNode N2 t2 ?s1"
  have "selectedNodes ?s2 = [N2] \<and>
        (\<exists>pre mid. sel_emitted ?s2 =
           sel_emitted s @ pre @ [Emit selectNodeEvent (ISelectNodeEvent N1 False)] @ mid @
             [Emit selectNodeEvent (ISelectNodeEvent N2 True)])"
  proof (cases "N1 \<in> set (selectedNodes s)")
    case False
    from False single excl have s1: "?s1 =
        s\<lparr>selectedNodes := [N1], selectedComponents := [],
          sel_emitted := sel_emitted s @ deselect_components (selectedComponents s) @
            deselect_nodes (selectedNodes s) @ [Emit selectNodeEvent (ISelectNodeEvent N1 True)]\<rparr>"
      by (intro selectNode_single) simp_all
    have "N2 \<notin> set (selectedNodes ?s1)" "\<not> (multiSelect ?s1 \<and> t2)" "exclusiveSelect ?s1"
      using a single excl by (simp_all add: s1)
    from selectNode_single [OF this]
    have s2: "?s2 = ?s1\<lparr>selectedNodes := [N2], selectedComponents := [],
          sel_emitted := sel_emitted ?s1 @ deselect_components (selectedComponents ?s1) @
            deselect_nodes (selectedNodes ?s1) @ [Emit selectNodeEvent (ISelectNodeEvent N2 True)]\<rparr>" .
    have nodes: "selectedNodes ?s2 = [N2]"
      by (subst s2) simp
    have "sel_emitted ?s2 =
        sel_emitted s @
        (deselect_components (selectedComponents s) @ deselect_nodes (selectedNodes s) @
           [Emit selectNodeEvent (ISelectNodeEvent N1 True)]) @
        [Emit selectNodeEvent (ISelectNodeEvent N1 False)] @ [] @
        [Emit selectNodeEvent (ISelectNodeEvent N2 True)]"
      by (subst s2) (simp add: s1 deselect_nodes_def)
    with nodes show ?thesis by blast
  next
    case True
    with a have n2: "N2 \<notin> set (selectedNodes s)" by simp
    from True single have s1: "?s1 = s"
      by (intro selectNode_selected) simp_all
    from n2 single excl have s2: "selectNode N2 t2 s =
        s\<lparr>selectedNodes := [N2], selectedComponents := [],
          sel_emitted := sel_emitted s @ deselect_components (selectedComponents s) @
            deselect_nodes (selectedNodes s) @ [Emit selectNodeEvent (ISelectNodeEvent N2 True)]\<rparr>"
      by (intro selectNode_single) simp_all
    from deselect_nodes_member [OF True] obtain pre mid where
      split: "deselect_nodes (selectedNodes s) =
                pre @ [Emit selectNodeEvent (ISelectNodeEvent N1 False)] @ mid"
      by blast
    have nodes: "selectedNodes ?s2 = [N2]"
      by (simp add: s1 s2)
    have "sel_emitted ?s2 =
        sel_emitted s @ (deselect_components (selectedComponents s) @ pre) @
        [Emit selectNodeEvent (ISelectNodeEvent N1 False)] @ mid @
        [Emit selectNodeEvent (ISelectNodeEvent N2 True)]"
      by (simp add: s1 s2 split)
    with nodes show ?thesis by blast
  qed
  then show "selectedNodes ?s2 = [N2]"
    and "\<exists>pre mid. sel_emitted ?s2 =
           sel_emitted s @ pre @ [Emit selectNodeEvent (ISelectNodeEvent N1 False)] @ mid @
             [Emit selectNodeEvent (ISelectNodeEvent N2 True)]"
    by blast+
next
  assume b: "N \<in> set (selectedNodes s) \<and> C \<notin> set (selectedComponents s)"
  from b single excl have sc: "selectComponent C t s =
      s\<lparr>selectedNodes := [], selectedComponents := [C],
        sel_emitted := sel_emitted s @ deselect_nodes (selectedNodes s) @
          deselect_components (selectedComponents s) @
          [Emit selectComponentEvent (ISelectComponentEvent C True),
           SystemEmitComponentEvent C selectNodeEvent (ISelectComponentEvent C True)]\<rparr>"
    by (intro selectComponent_single) simp_all
  show "selectedNodes (selectComponent C t s) = []" by (simp add: sc)
  show "selectedComponents (selectComponent C t s) = [C]" by (simp add: sc)
  from b deselect_nodes_member obtain pre mid where
    split: "deselect_nodes (selectedNodes s) =
              pre @ [Emit selectNodeEvent (ISelectNodeEvent N False)] @ mid"
    by blast
  have "sel_emitted (selectComponent C t s) =
      sel_emitted s @ pre @ [Emit selectNodeEvent (ISelectNodeEvent N False)] @
      (mid @ deselect_components (selectedComponents s)) @
      [Emit selectComponentEvent (ISelectComponentEvent C True),
       SystemEmitComponentEvent C selectNodeEvent (ISelectComponentEvent C True)]"
    by (simp add: sc split)
  then show "\<exists>pre mid. sel_emitted (selectComponent C t s) =
      sel_emitted s @ pre @ [Emit selectNodeEvent (ISelectNodeEvent N False)] @ mid @
        [Emit selectComponentEvent (ISelectComponentEvent C True),
         SystemEmitComponentEvent C selectNodeEvent (ISelectComponentEvent C True)]"
    by blast
qed


text \<open>
  With node 3 selected in a new controller: selecting 3 and then 4 leaves node 4, and
  selecting component 5 clears the nodes and leaves component 5.
\<close>

theorem default_configuration_selection_witness:
  "\<not> multiSelect (selectNode 3 False SelectionController_new) \<and>
   exclusiveSelect (selectNode 3 False SelectionController_new) \<and>
   (3::nid) \<noteq> 4 \<and> 4 \<notin> set (selectedNodes (selectNode 3 False SelectionController_new)) \<and>
   3 \<in> set (selectedNodes (selectNode 3 False SelectionController_new)) \<and>
   5 \<notin> set (selectedComponents (selectNode 3 False SelectionController_new)) \<and>
   selectedNodes (selectNode 4 False (selectNode 3 False
      (selectNode 3 False SelectionController_new))) = [4] \<and>
   selectedNodes (selectComponent 5 False (selectNode 3 False SelectionController_new)) = [] \<and>
   selectedComponents (selectComponent 5 False (selectNode 3 False SelectionController_new)) = [5]"
proof -
  let ?s = "selectNode 3 False SelectionController_new"
  have s: "?s = SelectionController_new\<lparr>selectedNodes := [3],
             sel_emitted := [Emit selectNodeEvent (ISelectNodeEvent 3 True)]\<rparr>"
    by (simp add: selectNode_single SelectionController_new_def)
  have h1: "\<not> multiSelect ?s" and h2: "exclusiveSelect ?s"
    unfolding s by (simp_all add: SelectionController_new_def)
  have h3: "(3::nid) \<noteq> 4 \<and> (3 \<notin> set (selectedNodes ?s) \<or> 4 \<notin> set (selectedNodes ?s))"
    and h4: "3 \<in> set (selectedNodes ?s) \<and> 5 \<notin> set (selectedComponents ?s)"
    unfolding s by (simp_all add: SelectionController_new_def)
  from default_configuration_selection [OF h1 h2, of 3 4 False False 3 5 False] h3 h4
  have "selectedNodes (selectNode 4 False (selectNode 3 False ?s)) = [4] \<and>
        selectedNodes (selectComponent 5 False ?s) = [] \<and>
        selectedComponents (selectComponent 5 False ?s) = [5]"
    by blast
  with h1 h2 h3 h4 show ?thesis by blast
qed

lemma selectNode_config:
  "exclusiveSelect (selectNode n t s) = exclusiveSelect s \<and>
   multiSelect (selectNode n t s) = multiSelect s"
  by (simp add: selectNode_def Let_def fold_emitSelectNodeEvent fold_emitSelectComponentEvent
      emitSelectNodeEvent_def)

lemma selectComponent_config:
  "exclusiveSelect (selectComponent c t s) = exclusiveSelect s \<and>
   multiSelect (selectComponent c t s) = multiSelect s"
  by (simp add: selectComponent_def Let_def fold_emitSelectNodeEvent fold_emitSelectComponentEvent
      emitSelectComponentEvent_def)

lemma selectNode_exclusive:
  assumes "exclusiveSelect s" and "exclusive_inv s"
  shows "exclusive_inv (selectNode n t s)"
proof (cases "n \<in> set (selectedNodes s)")
  case True
  with assms(2) have "selectedComponents s = []"
    by (auto simp add: exclusive_inv_def)
  with True show ?thesis
    by (simp add: selectNode_def exclusive_inv_def emitSelectNodeEvent_def)
next
  case False
  with assms(1) show ?thesis
    by (simp add: selectNode_def Let_def exclusive_inv_def fold_emitSelectNodeEvent
        fold_emitSelectComponentEvent emitSelectNodeEvent_def)
qed

lemma selectComponent_exclusive:
  assumes "exclusiveSelect s" and "exclusive_inv s"
  shows "exclusive_inv (selectComponent c t s)"
proof (cases "c \<in> set (selectedComponents s)")
  case True
  with assms(2) have "selectedNodes s = []"
    by (auto simp add: exclusive_inv_def)
  with True show ?thesis
    by (simp add: selectComponent_def exclusive_inv_def emitSelectComponentEvent_def Let_def)
next
  case False
  with assms(1) show ?thesis
    by (simp add: selectComponent_def Let_def exclusive_inv_def fold_emitSelectNodeEvent
        fold_emitSelectComponentEvent emitSelectComponentEvent_def)
qed

lemma run_exclusive:
  assumes "exclusiveSelect s" and "exclusive_inv s"
  shows "exclusiveSelect (fold perform acts s) \<and> exclusive_inv (fold perform acts s)"
  using assms
proof (induction acts arbitrary: s)
  case Nil
  then show ?case by simp
next
  case (Cons a acts)
  have "exclusiveSelect (perform a s) \<and> exclusive_inv (perform a s)"
    using Cons.prems
    by (cases a) (simp_all add: selectNode_config selectComponent_config
        selectNode_exclusive selectComponent_exclusive)
  then show ?case using Cons.IH by simp
qed

text \<open>
  Claim C10. With \<open>exclusiveSelect\<close> on, \<open>selectNode\<close> and \<open>selectComponent\<close> each
  keep the property that at most one of the two selection sets is non-empty. A new
  controller has both sets empty and \<open>exclusiveSelect\<close> on, so after any run of select
  calls, with \<open>multiSelect\<close> on or off, the property holds: no node and component are
  selected at the same time.
\<close>

theorem exclusive_selection_invariant:
  "(exclusiveSelect s \<and> exclusive_inv s \<longrightarrow>
      exclusive_inv (selectNode n t s) \<and> exclusive_inv (selectComponent c t s)) \<and>
   exclusive_inv (fold perform acts (SelectionController_new\<lparr>multiSelect := m\<rparr>)) \<and>
   \<not> (n' \<in> set (selectedNodes (fold perform acts (SelectionController_new\<lparr>multiSelect := m\<rparr>))) \<and>
      c' \<in> set (selectedComponents (fold perform acts (SelectionController_new\<lparr>multiSelect := m\<rparr>))))"
proof -
  let ?s0 = "SelectionController_new\<lparr>multiSelect := m\<rparr>"
  have "exclusiveSelect ?s0" and "exclusive_inv ?s0"
    by (simp_all add: SelectionController_new_def exclusive_inv_def)
  then have run: "exclusive_inv (fold perform acts ?s0)"
    using run_exclusive by blast
  then have "\<not> (n' \<in> set (selectedNodes (fold perform acts ?s0)) \<and>
                c' \<in> set (selectedComponents (fold perform acts ?s0)))"
    by (auto simp add: exclusive_inv_def)
  with run show ?thesis
    by (simp add: selectNode_exclusive selectComponent_exclusive)
qed

text \<open>
  With multi-select on: selecting node 3 and then components 5 and 6 with toggle leaves
  the two components and no node.
\<close>

theorem exclusive_selection_invariant_witness:
  "exclusiveSelect (selectNode 3 False SelectionController_new) \<and>
   exclusive_inv (selectNode 3 False SelectionController_new) \<and>
   exclusive_inv (selectNode 4 True (selectNode 3 False SelectionController_new)) \<and>
   exclusive_inv (selectComponent 5 True (selectNode 3 False SelectionController_new)) \<and>
   exclusive_inv (fold perform [SelectNode 3 False, SelectComponent 5 True, SelectComponent 6 True]
                    (SelectionController_new\<lparr>multiSelect := True\<rparr>)) \<and>
   selectedComponents (fold perform [SelectNode 3 False, SelectComponent 5 True, SelectComponent 6 True]
                    (SelectionController_new\<lparr>multiSelect := True\<rparr>)) = [5, 6]"
proof -
  let ?s = "selectNode 3 False SelectionController_new"
  have s: "?s = SelectionController_new\<lparr>selectedNodes := [3],
             sel_emitted := [Emit selectNodeEvent (ISelectNodeEvent 3 True)]\<rparr>"
    by (simp add: selectNode_single SelectionController_new_def)
  have h: "exclusiveSelect ?s \<and> exclusive_inv ?s"
    unfolding s by (simp add: SelectionController_new_def exclusive_inv_def)
  have run: "selectedComponents (fold perform [SelectNode 3 False, SelectComponent 5 True, SelectComponent 6 True]
                    (SelectionController_new\<lparr>multiSelect := True\<rparr>)) = [5, 6]"
    by (simp add: selectNode_def selectComponent_def SelectionController_new_def Let_def
        emitSelectNodeEvent_def emitSelectComponentEvent_def set_add_def)
  from exclusive_selection_invariant
         [of ?s 4 True 5 "[SelectNode 3 False, SelectComponent 5 True, SelectComponent 6 True]"
             True 3 5] h run
  show ?thesis by blast
qed

end
